theory Spec2Isabelle
  imports Main
begin

section \<open>Kinvey.Store.Cached: a policy-driven cache in front of two stores\<close>

text \<open>
  The development embeds \<^verbatim>\<open>src/src/store/Cached.js\<close>.  The class bridges a local
  database (\<^verbatim>\<open>this.db\<close>) and the network store (\<^verbatim>\<open>this.store\<close>); a cache policy
  decides which of the two a read consults first, whether the other one is consulted as
  well, and whether a network response is written back into the database.

  Naming: JavaScript's private members start with an underscore, which an Isabelle name
  cannot; \<^verbatim>\<open>_read\<close> is \<open>p_read\<close> here, \<^verbatim>\<open>_shouldCallBoth\<close> is \<open>p_shouldCallBoth\<close>, and
  so on.  Everything else keeps the name it has in the source.

  The class uses code that is not in this file: the database (\<^verbatim>\<open>Database\<close>), the network
  store (\<^verbatim>\<open>Kinvey.Store.factory\<close>), the class helper \<^verbatim>\<open>Base.extend\<close>, and the helpers
  \<^verbatim>\<open>bind\<close> and \<^verbatim>\<open>merge\<close>.  The two stores are parameters of the model; the helpers are
  described where they are used.
\<close>

subsection \<open>JavaScript values\<close>

text \<open>
  Arguments, responses, errors and the policy are untyped in the source.  An object is
  an association list of its own properties.
\<close>

datatype jsval =
    Undefined
  | Null
  | Bool bool
  | Num int
  | Str string
  | Obj "(string \<times> jsval) list"

text \<open>What \<^verbatim>\<open>v || ...\<close> and \<^verbatim>\<open>v && ...\<close> test.\<close>

fun truthy :: "jsval \<Rightarrow> bool" where
  "truthy Undefined = False"
| "truthy Null = False"
| "truthy (Bool b) = b"
| "truthy (Num n) = (n \<noteq> 0)"
| "truthy (Str s) = (s \<noteq> [])"
| "truthy (Obj fs) = True"

text \<open>\<^verbatim>\<open>null != v\<close>, the loose comparison: false for \<^verbatim>\<open>null\<close> and \<^verbatim>\<open>undefined\<close> only.\<close>

fun not_nullish :: "jsval \<Rightarrow> bool" where
  "not_nullish Undefined = False"
| "not_nullish Null = False"
| "not_nullish v = True"

text \<open>
  \<^verbatim>\<open>v[k]\<close>.  On \<^verbatim>\<open>null\<close> and \<^verbatim>\<open>undefined\<close> JavaScript throws; the only property read of
  the source, \<^verbatim>\<open>response._id\<close>, sits behind \<^verbatim>\<open>null != response\<close>, so those two equations
  are never used.
\<close>

fun get_prop :: "jsval \<Rightarrow> string \<Rightarrow> jsval" where
  "get_prop (Obj fs) k = (case map_of fs k of Some v \<Rightarrow> v | None \<Rightarrow> Undefined)"
| "get_prop v k = Undefined"

text \<open>
  \<^verbatim>\<open>Array.prototype.indexOf\<close>: the first index holding the value, or \<open>-1\<close>.  It compares
  with \<^verbatim>\<open>===\<close>; the arrays of the source hold strings only, on which \<^verbatim>\<open>===\<close> is equality
  of values.
\<close>

fun indexOf :: "jsval list \<Rightarrow> jsval \<Rightarrow> int" where
  "indexOf [] v = -1"
| "indexOf (x # xs) v =
     (if x = v then 0
      else (let i = indexOf xs v in if i = -1 then -1 else i + 1))"

subsection \<open>Cache policies\<close>

definition NO_CACHE :: jsval where
  "NO_CACHE = Str ''nocache''"

definition CACHE_ONLY :: jsval where
  "CACHE_ONLY = Str ''cacheonly''"

definition CACHE_FIRST :: jsval where
  "CACHE_FIRST = Str ''cachefirst''"

definition NETWORK_FIRST :: jsval where
  "NETWORK_FIRST = Str ''networkfirst''"

definition BOTH :: jsval where
  "BOTH = Str ''both''"

lemmas policy_defs = NO_CACHE_def CACHE_ONLY_def CACHE_FIRST_def NETWORK_FIRST_def BOTH_def

definition p_shouldCallBoth :: "jsval \<Rightarrow> bool" where
  "p_shouldCallBoth policy =
     (let accepted = [CACHE_FIRST, BOTH] in -1 \<noteq> indexOf accepted policy)"

definition p_shouldCallBothCallbacks :: "jsval \<Rightarrow> bool" where
  "p_shouldCallBothCallbacks policy = (BOTH = policy)"

definition p_shouldCallFallback :: "jsval \<Rightarrow> bool" where
  "p_shouldCallFallback policy =
     (let accepted = [NETWORK_FIRST]
      in p_shouldCallBoth policy \<or> -1 \<noteq> indexOf accepted policy)"

definition p_shouldCallNetworkFirst :: "jsval \<Rightarrow> bool" where
  "p_shouldCallNetworkFirst policy =
     (let accepted = [NO_CACHE, NETWORK_FIRST] in -1 \<noteq> indexOf accepted policy)"

definition p_shouldUpdateCache :: "jsval \<Rightarrow> bool" where
  "p_shouldUpdateCache policy =
     (let accepted = [CACHE_FIRST, NETWORK_FIRST, BOTH] in -1 \<noteq> indexOf accepted policy)"

lemmas should_defs =
  p_shouldCallBoth_def p_shouldCallBothCallbacks_def p_shouldCallFallback_def
  p_shouldCallNetworkFirst_def p_shouldUpdateCache_def


subsection \<open>Functions and options objects\<close>

text \<open>
  An application function is either the literal \<^verbatim>\<open>function() { }\<close> of the class's own
  options (\<open>Noop\<close>) or a function of the application (\<open>Fn n\<close>, with \<open>n\<close> telling one from
  another).
\<close>

datatype callback = Noop | Fn nat

text \<open>
  A store object.  \<open>store_configured\<close> is what \<^verbatim>\<open>this.store.configure\<close> was last called
  with (\<open>Undefined\<close> before the first call).  Its database and its network store are
  the backends below, asked under the name of its collection.
\<close>

record cached =
  collection :: string
  store_configured :: jsval

text \<open>
  Options objects are passed by reference, and the class writes into them: \<^verbatim>\<open>_options\<close>
  fills the caller's object, and \<^verbatim>\<open>_read\<close> and \<^verbatim>\<open>_write\<close> replace its \<^verbatim>\<open>success\<close> and
  \<^verbatim>\<open>error\<close> by closures of their own, which stay there when the operation is over.  So
  an options object lives at an address, and what its three callback slots can hold is
  a function of the application, one of those closures, or nothing (\<^verbatim>\<open>undefined\<close>).

  The closures carry what they close over:
  \<^item> \<open>ReadSuccess this operation arg options c fnSuccess\<close>: the handler of lines 189-208,
    with the address of \<^verbatim>\<open>options\<close> and the cell \<open>c\<close> of the variable \<^verbatim>\<open>invoked\<close>;
  \<^item> \<open>WriteSuccess this operation arg options fnSuccess\<close>: the handler of lines 313-344;
  \<^item> \<open>ResetError options\<close>: \<^verbatim>\<open>function() { options.complete(); }\<close> of line 217;
  \<^item> \<open>ThenComplete fnError options\<close>:
    \<^verbatim>\<open>function(error, info) { fnError(error, info); options.complete(); }\<close> of lines 227
    and 345.

  The class never assigns \<^verbatim>\<open>options.complete\<close>.
\<close>

type_synonym addr = nat

datatype success_fn =
    NoSuccess
  | AppSuccess callback
  | ReadSuccess cached string jsval addr nat success_fn
  | WriteSuccess cached string jsval addr success_fn

datatype error_fn =
    NoError
  | AppError callback
  | ResetError addr
  | ThenComplete error_fn addr

datatype complete_fn = NoComplete | AppComplete callback

record options =
  policy :: jsval
  store :: jsval
  success :: success_fn
  error :: error_fn
  complete :: complete_fn

text \<open>The object literal \<^verbatim>\<open>{ }\<close>.\<close>

definition empty_options :: options where
  "empty_options =
     \<lparr>policy = Undefined, store = Undefined, success = NoSuccess, error = NoError,
      complete = NoComplete\<rparr>"

text \<open>The \<^verbatim>\<open>options\<close> member of the class (lines 9-16).\<close>

definition class_options :: options where
  "class_options =
     \<lparr>policy = Null, store = Obj [],
      success = AppSuccess Noop, error = AppError Noop, complete = AppComplete Noop\<rparr>"

subsection \<open>The two backends and what is observed\<close>

text \<open>
  The database and the network store are not part of the class; it only calls them.
  Each call of a store method answers once, through the success or the error callback
  it was given, with a response or an error and the \<^verbatim>\<open>info\<close> object, of which the class
  reads \<^verbatim>\<open>info.network\<close>.  \<^verbatim>\<open>db.put\<close> answers through one of its two callbacks.  Every
  store object has a database and a network store of its own, made for its collection
  (lines 30-31): the backends are asked under the name of the collection.  The state of
  the database is a parameter \<open>'db\<close>; only \<^verbatim>\<open>put\<close> changes it.
\<close>

record info =
  network :: bool

datatype outcome = Succeeds jsval info | Fails jsval info

record 'db backends =
  db_call :: "'db \<Rightarrow> string \<Rightarrow> string \<Rightarrow> jsval \<Rightarrow> outcome"
  db_put :: "'db \<Rightarrow> string \<Rightarrow> string \<Rightarrow> jsval \<Rightarrow> jsval \<Rightarrow> bool \<times> 'db"
  store_call :: "string \<Rightarrow> string \<Rightarrow> jsval \<Rightarrow> outcome"

datatype store_id = Db | Store

text \<open>
  One run of an operation is observed as the list of what happened, in order: a store
  method is called (on the store of which collection, which method, with which
  argument), a store answers, \<^verbatim>\<open>db.put\<close> is called, it settles, and a function of the
  application is invoked as success, error or complete callback.  Calling a slot that
  holds no function throws a \<^verbatim>\<open>TypeError\<close>.
\<close>

datatype event =
    Called store_id string string jsval
  | Replied store_id outcome
  | PutCalled string string jsval jsval
  | PutSettled bool
  | Success jsval info
  | Error jsval info
  | Complete
  | TypeError

subsection \<open>The state\<close>

text \<open>
  Modelled from the spec: \<^verbatim>\<open>Base.extend\<close> is a helper of the library whose code is missing
  here.  The specification speaks of "mutable shared per-instance configuration", and
  the class is written as an object literal handed to \<^verbatim>\<open>Base.extend\<close>: its members,
  \<^verbatim>\<open>options\<close> among them, are members of the prototype, and nothing in the class assigns
  \<^verbatim>\<open>this.options\<close>.  So \<^verbatim>\<open>this.options\<close> is for every store object the one object of lines
  9-16, here \<open>proto\<close>.

  Next to it the state holds the options objects by address, the cells of the
  \<^verbatim>\<open>invoked\<close> variables (one for each call of \<^verbatim>\<open>_read\<close>), the database, what was observed,
  and the store calls that wait for their answer.
\<close>

text \<open>
  Modelled from the spec: \<^verbatim>\<open>merge\<close> and \<^verbatim>\<open>bind\<close> are helpers of the library whose code is
  missing here.  The specification has the primary backend invoked "with the operation
  name, argument, and a success/error pair wired as below", the pair being the two
  handlers of lines 212-237: \<^verbatim>\<open>merge\<close> builds a new object out of \<^verbatim>\<open>options\<close> and that pair
  and leaves \<^verbatim>\<open>options\<close> as it is (the handlers go on calling \<^verbatim>\<open>options.success\<close> and
  \<^verbatim>\<open>options.error\<close>), and \<^verbatim>\<open>bind(this, f)\<close> is \<^verbatim>\<open>f\<close> with its \<^verbatim>\<open>this\<close> fixed.  A store is
  called either with that new object (\<open>Wrapped\<close>, with the address of \<^verbatim>\<open>options\<close> and the
  secondary store its handlers close over), or with \<^verbatim>\<open>options\<close> itself (\<open>Options\<close>), whose
  handlers are then what its slots hold when the store answers.
\<close>

datatype reply_to = Wrapped addr store_id | Options addr

text \<open>
  Store calls are asynchronous: the call returns, the handler that made it runs to its
  end, and the answer arrives afterwards.  The calls waiting for their answer are the
  \<open>queue\<close>; they are answered first come, first served.  The callbacks handed to
  \<^verbatim>\<open>db.put\<close> are \<^verbatim>\<open>function() { options.complete(); }\<close> (lines 200-201 and 335-338); a
  waiting \<^verbatim>\<open>put\<close> carries the address of that \<^verbatim>\<open>options\<close>.
\<close>

datatype task =
    Call store_id cached string jsval reply_to
  | PutReq cached string jsval jsval addr

record 'db state =
  proto :: options
  objs :: "addr \<Rightarrow> options"
  next_obj :: addr
  cells :: "nat \<Rightarrow> bool"
  next_cell :: nat
  db :: 'db
  trace :: "event list"
  queue :: "task list"

text \<open>The class has been loaded and nothing else has happened.\<close>

definition class_loaded :: "'db \<Rightarrow> 'db state" where
  "class_loaded d =
     \<lparr>proto = class_options, objs = (\<lambda>a. empty_options), next_obj = 0,
      cells = (\<lambda>c. False), next_cell = 0, db = d, trace = [], queue = []\<rparr>"

text \<open>The application makes an options object: the object literal \<^verbatim>\<open>{policy: ..., ...}\<close>.\<close>

definition new_object :: "options \<Rightarrow> 'db state \<Rightarrow> addr \<times> 'db state" where
  "new_object os w =
     (next_obj w, w\<lparr>objs := (objs w)(next_obj w := os), next_obj := Suc (next_obj w)\<rparr>)"

subsection \<open>Construction and configuration\<close>

text \<open>
  \<^verbatim>\<open>configure\<close> (lines 61-70) and the constructor (lines 26-36) read the object they are
  given and write into \<^verbatim>\<open>this.options\<close>.
\<close>

definition configure :: "cached \<Rightarrow> options \<Rightarrow> 'db state \<Rightarrow> 'db state" where
  "configure this opts w =
     (let o1 = (if truthy (policy opts) then (proto w)\<lparr>policy := policy opts\<rparr> else proto w);
          o2 = (if truthy (store opts) then o1\<lparr>store := store opts\<rparr> else o1);
          o3 = (if success opts \<noteq> NoSuccess then o2\<lparr>success := success opts\<rparr> else o2);
          o4 = (if error opts \<noteq> NoError then o3\<lparr>error := error opts\<rparr> else o3);
          o5 = (if complete opts \<noteq> NoComplete then o4\<lparr>complete := complete opts\<rparr> else o4)
      in w\<lparr>proto := o5\<rparr>)"

definition constructor :: "string \<Rightarrow> options option \<Rightarrow> 'db state \<Rightarrow> cached \<times> 'db state" where
  "constructor coll opts w =
     (let this = \<lparr>collection = coll, store_configured = Undefined\<rparr>;
          w1 = w\<lparr>proto := (proto w)\<lparr>policy := NETWORK_FIRST\<rparr>\<rparr>
      in case opts of None \<Rightarrow> (this, w1) | Some os \<Rightarrow> (this, configure this os w1))"

text \<open>
  \<^verbatim>\<open>_options\<close> (lines 156-169).  The argument is the address of the caller's object, or
  \<open>None\<close> when the caller passed no options; then a new object is made.  The object is
  filled where it stands, its address is returned, and the network store of the store
  object is configured on the way.
\<close>

definition p_options ::
  "cached \<Rightarrow> addr option \<Rightarrow> 'db state \<Rightarrow> addr \<times> cached \<times> 'db state" where
  "p_options this given w =
     (let (a, w0) = (case given of None \<Rightarrow> new_object empty_options w | Some a \<Rightarrow> (a, w));
          o0 = objs w0 a;
          o1 = (if truthy (policy o0) then o0 else o0\<lparr>policy := policy (proto w0)\<rparr>);
          this' = this\<lparr>store_configured :=
                    (if truthy (store o1) then store o1 else store (proto w0))\<rparr>;
          o2 = (if success o1 \<noteq> NoSuccess then o1 else o1\<lparr>success := success (proto w0)\<rparr>);
          o3 = (if error o2 \<noteq> NoError then o2 else o2\<lparr>error := error (proto w0)\<rparr>);
          o4 = (if complete o3 \<noteq> NoComplete then o3
                else o3\<lparr>complete := complete (proto w0)\<rparr>)
      in (a, this', w0\<lparr>objs := (objs w0)(a := o4)\<rparr>))"

subsection \<open>Handlers\<close>

definition emit :: "event \<Rightarrow> 'db state \<Rightarrow> 'db state" where
  "emit e st = st\<lparr>trace := trace st @ [e]\<rparr>"

definition issue :: "task \<Rightarrow> 'db state \<Rightarrow> 'db state" where
  "issue t st = st\<lparr>queue := queue st @ [t]\<rparr>"

text \<open>\<^verbatim>\<open>someStore[operation](arg, ...)\<close> and \<^verbatim>\<open>this.db.put(operation, key, value, ...)\<close>.\<close>

definition call_store ::
  "store_id \<Rightarrow> cached \<Rightarrow> string \<Rightarrow> jsval \<Rightarrow> reply_to \<Rightarrow> 'db state \<Rightarrow> 'db state" where
  "call_store s this operation arg r st =
     issue (Call s this operation arg r) (emit (Called s (collection this) operation arg) st)"

definition call_put ::
  "cached \<Rightarrow> string \<Rightarrow> jsval \<Rightarrow> jsval \<Rightarrow> addr \<Rightarrow> 'db state \<Rightarrow> 'db state" where
  "call_put this operation key v a st =
     issue (PutReq this operation key v a)
       (emit (PutCalled (collection this) operation key v) st)"

text \<open>The assignments \<^verbatim>\<open>options.success = f\<close> and \<^verbatim>\<open>options.error = f\<close>.\<close>

definition set_success :: "addr \<Rightarrow> success_fn \<Rightarrow> 'db state \<Rightarrow> 'db state" where
  "set_success a f st = st\<lparr>objs := (objs st)(a := (objs st a)\<lparr>success := f\<rparr>)\<rparr>"

definition set_error :: "addr \<Rightarrow> error_fn \<Rightarrow> 'db state \<Rightarrow> 'db state" where
  "set_error a f st = st\<lparr>objs := (objs st)(a := (objs st a)\<lparr>error := f\<rparr>)\<rparr>"

text \<open>\<^verbatim>\<open>options.complete()\<close>, for the options object at an address.\<close>

definition options_complete :: "addr \<Rightarrow> 'db state \<Rightarrow> 'db state" where
  "options_complete a st =
     (case complete (objs st a) of
        AppComplete cb \<Rightarrow> emit Complete st
      | NoComplete \<Rightarrow> emit TypeError st)"

text \<open>
  The object \<^verbatim>\<open>cacheHandle\<close> of lines 322-331, keyed by operation names: how the database
  is updated after a write, as the arguments of \<^verbatim>\<open>db.put\<close>.  Its \<^verbatim>\<open>save\<close> entry exists
  only behind the test of line 329.
\<close>

definition cacheHandle ::
  "cached \<Rightarrow> jsval \<Rightarrow> jsval \<Rightarrow> (string \<times> string \<times> jsval \<times> jsval) list" where
  "cacheHandle this arg response =
     (let handle = [(''remove'', (''query'', arg, Null)),
                    (''removeWithQuery'', (''queryWithQuery'', arg, Null))]
      in if ''user'' \<noteq> collection this \<and> not_nullish response
         then handle @ [(''save'', (''query'', get_prop response ''_id'', response))]
         else handle)"

text \<open>
  Calling a function that sits, or sat, in a \<^verbatim>\<open>success\<close> slot.  The third equation is
  the handler of \<^verbatim>\<open>_read\<close> (lines 189-208), the fourth that of \<^verbatim>\<open>_write\<close> (lines 313-344);
  \<^verbatim>\<open>options.policy\<close> is read from the object when the handler runs.
\<close>

fun apply_success :: "success_fn \<Rightarrow> jsval \<Rightarrow> info \<Rightarrow> 'db state \<Rightarrow> 'db state" where
  "apply_success NoSuccess response info st = emit TypeError st"
| "apply_success (AppSuccess cb) response info st = emit (Success response info) st"
| "apply_success (ReadSuccess this operation arg a c fnSuccess) response info st =
     (let secondPass = cells st c;
          st1 = (if \<not> cells st c \<or> p_shouldCallBothCallbacks (policy (objs st a))
                 then apply_success fnSuccess response info
                        (st\<lparr>cells := (cells st)(c := True)\<rparr>)
                 else st)
      in if network info \<and> p_shouldUpdateCache (policy (objs st1 a))
         then call_put this operation arg response a st1
         else if secondPass \<or> \<not> p_shouldCallBoth (policy (objs st1 a))
         then options_complete a st1
         else st1)"
| "apply_success (WriteSuccess this operation arg a fnSuccess) response info st =
     (let st1 = apply_success fnSuccess response info st
      in if p_shouldUpdateCache (policy (objs st1 a))
         then (case map_of (cacheHandle this arg response) operation of
                 Some (op, key, v) \<Rightarrow> call_put this op key v a st1
               | None \<Rightarrow> options_complete a st1)
         else options_complete a st1)"

text \<open>Calling a function that sits, or sat, in an \<^verbatim>\<open>error\<close> slot.\<close>

fun apply_error :: "error_fn \<Rightarrow> jsval \<Rightarrow> info \<Rightarrow> 'db state \<Rightarrow> 'db state" where
  "apply_error NoError err info st = emit TypeError st"
| "apply_error (AppError cb) err info st = emit (Error err info) st"
| "apply_error (ResetError a) err info st = options_complete a st"
| "apply_error (ThenComplete fnError a) err info st =
     options_complete a (apply_error fnError err info st)"

text \<open>The pair of handlers the primary store is called with, lines 212-222 and 223-237.\<close>

definition primary_success ::
  "cached \<Rightarrow> string \<Rightarrow> jsval \<Rightarrow> addr \<Rightarrow> store_id \<Rightarrow> jsval \<Rightarrow> info
     \<Rightarrow> 'db state \<Rightarrow> 'db state" where
  "primary_success this operation arg a secondaryStore response info st =
     (let st1 = apply_success (success (objs st a)) response info st
      in if p_shouldCallBoth (policy (objs st1 a))
         then call_store secondaryStore this operation arg (Options a)
                (set_error a (ResetError a) st1)
         else st1)"

definition primary_error ::
  "cached \<Rightarrow> string \<Rightarrow> jsval \<Rightarrow> addr \<Rightarrow> store_id \<Rightarrow> jsval \<Rightarrow> info
     \<Rightarrow> 'db state \<Rightarrow> 'db state" where
  "primary_error this operation arg a secondaryStore err info st =
     (if p_shouldCallFallback (policy (objs st a))
      then (let fnError = error (objs st a)
            in call_store secondaryStore this operation arg (Options a)
                 (set_error a (ThenComplete fnError a) st))
      else options_complete a (apply_error (error (objs st a)) err info st))"

subsection \<open>Answers\<close>

text \<open>A waiting call is answered by its backend, and the handler it was given runs.\<close>

definition deliver :: "'db backends \<Rightarrow> task \<Rightarrow> 'db state \<Rightarrow> 'db state" where
  "deliver env t st =
     (case t of
        Call s this operation arg r \<Rightarrow>
          (let out = (case s of
                        Db \<Rightarrow> db_call env (db st) (collection this) operation arg
                      | Store \<Rightarrow> store_call env (collection this) operation arg);
               st1 = emit (Replied s out) st
           in case out of
                Succeeds response info \<Rightarrow>
                  (case r of
                     Wrapped a secondaryStore \<Rightarrow>
                       primary_success this operation arg a secondaryStore response info st1
                   | Options a \<Rightarrow> apply_success (success (objs st1 a)) response info st1)
              | Fails err info \<Rightarrow>
                  (case r of
                     Wrapped a secondaryStore \<Rightarrow>
                       primary_error this operation arg a secondaryStore err info st1
                   | Options a \<Rightarrow> apply_error (error (objs st1 a)) err info st1))
      | PutReq this op key v a \<Rightarrow>
          (let (ok, d) = db_put env (db st) (collection this) op key v
           in options_complete a (emit (PutSettled ok) (st\<lparr>db := d\<rparr>))))"

text \<open>
  The run ends: an answer through the wrapped handlers can cause one call of the
  secondary store, and no other answer causes a store call; a \<^verbatim>\<open>put\<close> causes nothing.
\<close>

fun call_weight :: "task \<Rightarrow> nat" where
  "call_weight (Call s this operation arg (Wrapped a s')) = 2"
| "call_weight (Call s this operation arg (Options a)) = 1"
| "call_weight (PutReq this op key v a) = 0"

definition calls_weight :: "'db state \<Rightarrow> nat" where
  "calls_weight st = sum_list (map call_weight (queue st))"

lemma calls_weight_emit [simp]: "calls_weight (emit e st) = calls_weight st"
  by (simp add: calls_weight_def emit_def)

lemma calls_weight_issue [simp]:
  "calls_weight (issue t st) = calls_weight st + call_weight t"
  by (simp add: calls_weight_def issue_def)

lemma calls_weight_upd [simp]:
  "calls_weight (st\<lparr>objs := h\<rparr>) = calls_weight st"
  "calls_weight (st\<lparr>cells := cs\<rparr>) = calls_weight st"
  "calls_weight (st\<lparr>db := d\<rparr>) = calls_weight st"
  "calls_weight (st\<lparr>queue := q\<rparr>) = sum_list (map call_weight q)"
  by (simp_all add: calls_weight_def)

lemma calls_weight_set [simp]:
  "calls_weight (set_success a f st) = calls_weight st"
  "calls_weight (set_error a g st) = calls_weight st"
  by (simp_all add: set_success_def set_error_def)

lemma calls_weight_options_complete [simp]:
  "calls_weight (options_complete a st) = calls_weight st"
  by (simp add: options_complete_def split: complete_fn.splits)

lemma queue_options_complete [simp]: "queue (options_complete a st) = queue st"
  by (simp add: options_complete_def emit_def split: complete_fn.splits)

lemma calls_weight_call_put [simp]:
  "calls_weight (call_put this operation key v a st) = calls_weight st"
  by (simp add: call_put_def)

lemma calls_weight_apply_success [simp]:
  "calls_weight (apply_success f response info st) = calls_weight st"
  by (induction f response info st rule: apply_success.induct)
     (simp_all add: Let_def split: option.splits prod.splits)

lemma calls_weight_apply_error [simp]:
  "calls_weight (apply_error f err info st) = calls_weight st"
  by (induction f arbitrary: st) simp_all

lemma calls_weight_primary_success:
  "calls_weight (primary_success this operation arg a s' response info st)
     \<le> calls_weight st + 1"
  by (simp add: primary_success_def call_store_def Let_def)

lemma calls_weight_primary_error:
  "calls_weight (primary_error this operation arg a s' err info st) \<le> calls_weight st + 1"
  by (simp add: primary_error_def call_store_def Let_def)

lemma calls_weight_deliver_call:
  "calls_weight (deliver env (Call s this operation arg r) st)
     < calls_weight st + call_weight (Call s this operation arg r)"
proof -
  define out where
    "out = (case s of Db \<Rightarrow> db_call env (db st) (collection this) operation arg
                    | Store \<Rightarrow> store_call env (collection this) operation arg)"
  define st1 where "st1 = emit (Replied s out) st"
  have w: "calls_weight st1 = calls_weight st"
    by (simp add: st1_def)
  show ?thesis
  proof (cases r)
    case (Wrapped a s')
    have d: "deliver env (Call s this operation arg r) st =
               (case out of
                  Succeeds response info \<Rightarrow>
                    primary_success this operation arg a s' response info st1
                | Fails err info \<Rightarrow> primary_error this operation arg a s' err info st1)"
      by (simp add: deliver_def Wrapped out_def st1_def Let_def split: outcome.splits)
    show ?thesis
    proof (cases out)
      case (Succeeds response info)
      with d w calls_weight_primary_success [of this operation arg a s' response info st1]
      show ?thesis by (simp add: Wrapped)
    next
      case (Fails err info)
      with d w calls_weight_primary_error [of this operation arg a s' err info st1]
      show ?thesis by (simp add: Wrapped)
    qed
  next
    case (Options a)
    have d: "deliver env (Call s this operation arg r) st =
               (case out of
                  Succeeds response info \<Rightarrow>
                    apply_success (success (objs st1 a)) response info st1
                | Fails err info \<Rightarrow> apply_error (error (objs st1 a)) err info st1)"
      by (simp add: deliver_def Options out_def st1_def Let_def split: outcome.splits)
    from d w show ?thesis
      by (cases out) (simp_all add: Options)
  qed
qed

lemma deliver_put:
  "calls_weight (deliver env (PutReq this op key v a) st) = calls_weight st"
  "queue (deliver env (PutReq this op key v a) st) = queue st"
  by (simp_all add: deliver_def split: prod.splits) (simp add: emit_def)

function run :: "'db backends \<Rightarrow> 'db state \<Rightarrow> 'db state" where
  "run env st =
     (case queue st of
        [] \<Rightarrow> st
      | t # ts \<Rightarrow> run env (deliver env t (st\<lparr>queue := ts\<rparr>)))"
  by pat_completeness auto
termination
proof (relation "measures [\<lambda>(env, st). calls_weight st, \<lambda>(env, st). length (queue st)]")
  show "wf (measures [\<lambda>(env, st). calls_weight st, \<lambda>(env :: 'db backends, st :: 'db state). length (queue st)])"
    by simp
next
  fix env :: "'db backends" and st :: "'db state" and t ts
  assume q: "queue st = t # ts"
  have cw: "calls_weight st = sum_list (map call_weight ts) + call_weight t"
    by (simp add: calls_weight_def q)
  show "((env, deliver env t (st\<lparr>queue := ts\<rparr>)), (env, st))
        \<in> measures [\<lambda>(env, st). calls_weight st, \<lambda>(env, st). length (queue st)]"
  proof (cases t)
    case (Call s this operation arg r)
    with calls_weight_deliver_call [of env s this operation arg r "st\<lparr>queue := ts\<rparr>"] cw
    show ?thesis by simp
  next
    case (PutReq this op key v a)
    with deliver_put [of env this op key v a "st\<lparr>queue := ts\<rparr>"] cw q
    show ?thesis by simp
  qed
qed

declare run.simps [simp del]

subsection \<open>The two orchestrators and the six operations\<close>

text \<open>
  \<^verbatim>\<open>_read\<close> (lines 180-239) and \<^verbatim>\<open>_write\<close> (lines 309-353), called with the address of
  \<^verbatim>\<open>options\<close>: the handlers are written into the object, the first store is called, and
  the run lasts until no call is waiting for its answer.  The result is the state at
  the end; its \<open>trace\<close> is what happened during this operation.
\<close>

definition p_read ::
  "cached \<Rightarrow> 'db backends \<Rightarrow> string \<Rightarrow> jsval \<Rightarrow> addr \<Rightarrow> 'db state \<Rightarrow> 'db state" where
  "p_read this env operation arg a w =
     (let networkFirst = p_shouldCallNetworkFirst (policy (objs w a));
          primaryStore = (if networkFirst then Store else Db);
          secondaryStore = (if networkFirst then Db else Store);
          invoked = next_cell w;
          fnSuccess = success (objs w a);
          st = set_success a (ReadSuccess this operation arg a invoked fnSuccess)
                 (w\<lparr>cells := (cells w)(invoked := False), next_cell := Suc invoked,
                    trace := [], queue := []\<rparr>)
      in run env (call_store primaryStore this operation arg (Wrapped a secondaryStore) st))"

definition p_write ::
  "cached \<Rightarrow> 'db backends \<Rightarrow> string \<Rightarrow> jsval \<Rightarrow> addr \<Rightarrow> 'db state \<Rightarrow> 'db state" where
  "p_write this env operation arg a w =
     (let fnError = error (objs w a);
          fnSuccess = success (objs w a);
          st = set_error a (ThenComplete fnError a)
                 (set_success a (WriteSuccess this operation arg a fnSuccess)
                    (w\<lparr>trace := [], queue := []\<rparr>))
      in run env (call_store Store this operation arg (Options a) st))"

definition aggregate ::
  "cached \<Rightarrow> 'db backends \<Rightarrow> jsval \<Rightarrow> addr option \<Rightarrow> 'db state \<Rightarrow> 'db state \<times> cached"
  where
  "aggregate this env aggregation given w =
     (let (a, this', w') = p_options this given w
      in (p_read this' env ''aggregate'' aggregation a w', this'))"

definition query ::
  "cached \<Rightarrow> 'db backends \<Rightarrow> jsval \<Rightarrow> addr option \<Rightarrow> 'db state \<Rightarrow> 'db state \<times> cached"
  where
  "query this env ident given w =
     (let (a, this', w') = p_options this given w
      in (p_read this' env ''query'' ident a w', this'))"

definition queryWithQuery ::
  "cached \<Rightarrow> 'db backends \<Rightarrow> jsval \<Rightarrow> addr option \<Rightarrow> 'db state \<Rightarrow> 'db state \<times> cached"
  where
  "queryWithQuery this env q given w =
     (let (a, this', w') = p_options this given w
      in (p_read this' env ''queryWithQuery'' q a w', this'))"

definition remove ::
  "cached \<Rightarrow> 'db backends \<Rightarrow> jsval \<Rightarrow> addr option \<Rightarrow> 'db state \<Rightarrow> 'db state \<times> cached"
  where
  "remove this env object given w =
     (let (a, this', w') = p_options this given w
      in (p_write this' env ''remove'' object a w', this'))"

definition removeWithQuery ::
  "cached \<Rightarrow> 'db backends \<Rightarrow> jsval \<Rightarrow> addr option \<Rightarrow> 'db state \<Rightarrow> 'db state \<times> cached"
  where
  "removeWithQuery this env q given w =
     (let (a, this', w') = p_options this given w
      in (p_write this' env ''removeWithQuery'' q a w', this'))"

definition save ::
  "cached \<Rightarrow> 'db backends \<Rightarrow> jsval \<Rightarrow> addr option \<Rightarrow> 'db state \<Rightarrow> 'db state \<times> cached"
  where
  "save this env object given w =
     (let (a, this', w') = p_options this given w
      in (p_write this' env ''save'' object a w', this'))"

subsection \<open>Reading a trace\<close>

fun is_success :: "event \<Rightarrow> bool" where
  "is_success (Success response info) = True"
| "is_success e = False"

fun is_error :: "event \<Rightarrow> bool" where
  "is_error (Error err info) = True"
| "is_error e = False"

fun is_complete :: "event \<Rightarrow> bool" where
  "is_complete Complete = True"
| "is_complete e = False"

definition successes :: "event list \<Rightarrow> nat" where
  "successes tr = length (filter is_success tr)"

definition errors :: "event list \<Rightarrow> nat" where
  "errors tr = length (filter is_error tr)"

definition completes :: "event list \<Rightarrow> nat" where
  "completes tr = length (filter is_complete tr)"

text \<open>What reached the application through its success and error callbacks, in order.\<close>

definition notifications :: "event list \<Rightarrow> event list" where
  "notifications tr = filter (\<lambda>e. is_success e \<or> is_error e) tr"

text \<open>
  The calls of \<^verbatim>\<open>db.put\<close> (on the database of which collection, and with which
  arguments) and the stores whose methods were called, in order.
\<close>

fun puts :: "event list \<Rightarrow> (string \<times> string \<times> jsval \<times> jsval) list" where
  "puts [] = []"
| "puts (PutCalled coll operation key v # tr) = (coll, operation, key, v) # puts tr"
| "puts (e # tr) = puts tr"

fun stores_called :: "event list \<Rightarrow> store_id list" where
  "stores_called [] = []"
| "stores_called (Called s coll operation arg # tr) = s # stores_called tr"
| "stores_called (e # tr) = stores_called tr"



text \<open>The notification that hands an answer of a store on to the application.\<close>

fun notification :: "outcome \<Rightarrow> event" where
  "notification (Succeeds response info) = Success response info"
| "notification (Fails err info) = Error err info"

text \<open>
  The callbacks of an options object are the caller's own when each slot holds a
  function of the application, not a closure that an earlier operation left there; they
  are plain when no slot holds such a closure.
\<close>

fun own_success :: "success_fn \<Rightarrow> bool" where
  "own_success (AppSuccess cb) = True"
| "own_success f = False"

fun own_error :: "error_fn \<Rightarrow> bool" where
  "own_error (AppError cb) = True"
| "own_error f = False"

definition callers_own :: "options \<Rightarrow> bool" where
  "callers_own os =
     (own_success (success os) \<and> own_error (error os) \<and> complete os \<noteq> NoComplete)"

definition plain :: "options \<Rightarrow> bool" where
  "plain os =
     ((success os = NoSuccess \<or> own_success (success os))
      \<and> (error os = NoError \<or> own_error (error os)))"



definition perform ::
  "string \<Rightarrow> cached \<Rightarrow> 'db backends \<Rightarrow> jsval \<Rightarrow> addr option \<Rightarrow> 'db state
     \<Rightarrow> ('db state \<times> cached) option" where
  "perform name this env arg given w =
     (if name = ''aggregate'' then Some (aggregate this env arg given w)
      else if name = ''query'' then Some (query this env arg given w)
      else if name = ''queryWithQuery'' then Some (queryWithQuery this env arg given w)
      else if name = ''remove'' then Some (remove this env arg given w)
      else if name = ''removeWithQuery'' then Some (removeWithQuery this env arg given w)
      else if name = ''save'' then Some (save this env arg given w)
      else None)"

text \<open>
  What an application does to the options of the class: it constructs a store object,
  or it calls \<^verbatim>\<open>configure\<close> on one.
\<close>

datatype action = Construct string "options option" | Configure cached options

fun act :: "action \<Rightarrow> 'db state \<Rightarrow> 'db state" where
  "act (Construct coll opts) w = snd (constructor coll opts w)"
| "act (Configure this opts) w = configure this opts w"

definition acts :: "action list \<Rightarrow> 'db state \<Rightarrow> 'db state" where
  "acts as w = foldl (\<lambda>w a. act a w) w as"


text \<open>
  The policy an operation works with, and whether the options it is given hold no
  closure of an earlier operation.
\<close>

definition effective_policy :: "cached \<Rightarrow> addr option \<Rightarrow> 'db state \<Rightarrow> jsval" where
  "effective_policy this given w =
     (let (a, this', w') = p_options this given w in policy (objs w' a))"

definition untouched :: "addr option \<Rightarrow> 'db state \<Rightarrow> bool" where
  "untouched given w = (case given of None \<Rightarrow> True | Some a \<Rightarrow> plain (objs w a))"

text \<open>
  A policy that is none of the four the resolver looks for, and the state in which the
  options object at an address carries another policy.
\<close>

definition with_policy_at :: "addr \<Rightarrow> jsval \<Rightarrow> 'db state \<Rightarrow> 'db state" where
  "with_policy_at a q st = st\<lparr>objs := (objs st)(a := (objs st a)\<lparr>policy := q\<rparr>)\<rparr>"

definition unlisted :: "jsval \<Rightarrow> bool" where
  "unlisted p = (p \<noteq> NO_CACHE \<and> p \<noteq> NETWORK_FIRST \<and> p \<noteq> CACHE_FIRST \<and> p \<noteq> BOTH)"



subsection \<open>Concrete inputs\<close>

text \<open>
  A store for the collection \<open>books\<close> and one for the collection \<open>user\<close>, and backends
  that answer every read with a fixed outcome; the database is the list of what was
  put into it.
\<close>

definition books :: cached where
  "books = \<lparr>collection = ''books'', store_configured = Undefined\<rparr>"

definition users :: cached where
  "users = \<lparr>collection = ''user'', store_configured = Undefined\<rparr>"

definition loaded :: "(string \<times> string \<times> jsval \<times> jsval) list state" where
  "loaded = class_loaded []"

definition started :: "(string \<times> string \<times> jsval \<times> jsval) list state" where
  "started = snd (constructor ''user'' None (snd (constructor ''books'' None loaded)))"

definition fixed_backends ::
  "outcome \<Rightarrow> outcome \<Rightarrow> (string \<times> string \<times> jsval \<times> jsval) list backends" where
  "fixed_backends local remote =
     \<lparr>db_call = (\<lambda>d coll operation arg. local),
      db_put = (\<lambda>d coll operation key v. (True, (coll, operation, key, v) # d)),
      store_call = (\<lambda>coll operation arg. remote)\<rparr>"

definition cached_copy :: outcome where
  "cached_copy =
     Succeeds (Obj [(''_id'', Str ''b1''), (''title'', Str ''old'')]) \<lparr>network = False\<rparr>"

definition fresh_copy :: outcome where
  "fresh_copy =
     Succeeds (Obj [(''_id'', Str ''b1''), (''title'', Str ''new'')]) \<lparr>network = True\<rparr>"

definition db_failure :: outcome where
  "db_failure = Fails (Str ''EntityNotFound'') \<lparr>network = False\<rparr>"


text \<open>
  The object literal \<^verbatim>\<open>{policy: p, success: f1, error: f2, complete: f3}\<close> with three
  functions of the application, and the state in which the application has made it.
\<close>

definition literal :: "jsval \<Rightarrow> options" where
  "literal p =
     \<lparr>policy = p, store = Undefined, success = AppSuccess (Fn 1), error = AppError (Fn 2),
      complete = AppComplete (Fn 3)\<rparr>"

definition with_literal ::
  "jsval \<Rightarrow> (string \<times> string \<times> jsval \<times> jsval) list state" where
  "with_literal p = snd (new_object (literal p) started)"

text \<open>
  The answer of the network store to a \<^verbatim>\<open>save\<close> on the collection \<open>user\<close>, and backends
  in which the network store answers a write with the saved document.
\<close>

definition user_record :: outcome where
  "user_record =
     Succeeds (Obj [(''_id'', Str ''u1''), (''password'', Str ''secret'')]) \<lparr>network = True\<rparr>"

definition shop_backends :: "(string \<times> string \<times> jsval \<times> jsval) list backends" where
  "shop_backends =
     \<lparr>db_call = (\<lambda>d coll operation arg. db_failure),
      db_put = (\<lambda>d coll operation key v. (True, (coll, operation, key, v) # d)),
      store_call = (\<lambda>coll operation arg. if coll = ''user'' then user_record else fresh_copy)\<rparr>"

section \<open>The policy resolver\<close>

lemma indexOf_mem: "(-1 \<noteq> indexOf xs v) = (v \<in> set xs)"
proof (induction xs)
  case Nil
  show ?case by simp
next
  case (Cons x xs)
  have nonneg: "\<And>ys. indexOf ys v \<noteq> -1 \<Longrightarrow> 0 \<le> indexOf ys v"
  proof -
    fix ys
    show "indexOf ys v \<noteq> -1 \<Longrightarrow> 0 \<le> indexOf ys v"
      by (induction ys) (auto simp: Let_def split: if_splits)
  qed
  show ?case
  proof (cases "x = v")
    case True
    then show ?thesis by simp
  next
    case False
    have "indexOf xs v \<noteq> -1 \<Longrightarrow> indexOf xs v + 1 \<noteq> -1"
      using nonneg [of xs] by arith
    with False Cons show ?thesis by (auto simp: Let_def)
  qed
qed

lemma shouldCallNetworkFirst_iff:
  "p_shouldCallNetworkFirst p = (p \<in> {NO_CACHE, NETWORK_FIRST})"
  by (auto simp: p_shouldCallNetworkFirst_def Let_def indexOf_mem)

lemma shouldCallBoth_iff: "p_shouldCallBoth p = (p \<in> {CACHE_FIRST, BOTH})"
  by (auto simp: p_shouldCallBoth_def Let_def indexOf_mem)

lemma shouldUpdateCache_iff:
  "p_shouldUpdateCache p = (p \<in> {CACHE_FIRST, NETWORK_FIRST, BOTH})"
  by (auto simp: p_shouldUpdateCache_def Let_def indexOf_mem)

lemma shouldCallFallback_iff:
  "p_shouldCallFallback p = (p \<in> {CACHE_FIRST, NETWORK_FIRST, BOTH})"
  by (auto simp: p_shouldCallFallback_def Let_def indexOf_mem shouldCallBoth_iff)

text \<open>
  C2.  The resolver maps a policy to four booleans as the table of the specification
  has them: network first holds exactly for \<open>NO_CACHE\<close> and \<open>NETWORK_FIRST\<close>, calling
  both stores exactly for \<open>CACHE_FIRST\<close> and \<open>BOTH\<close>, updating the cache exactly for
  \<open>CACHE_FIRST\<close>, \<open>NETWORK_FIRST\<close> and \<open>BOTH\<close>, and the fallback is allowed when both
  stores are called or the policy is \<open>NETWORK_FIRST\<close>, that is exactly for
  \<open>CACHE_FIRST\<close>, \<open>NETWORK_FIRST\<close> and \<open>BOTH\<close>.  The five policies are distinct values,
  and the table is read off row by row.
\<close>

theorem policy_resolver_table:
  "distinct [NO_CACHE, CACHE_ONLY, CACHE_FIRST, NETWORK_FIRST, BOTH]
   \<and> map (\<lambda>p. (p_shouldCallNetworkFirst p, p_shouldCallBoth p,
                p_shouldCallFallback p, p_shouldUpdateCache p))
         [NO_CACHE, CACHE_ONLY, CACHE_FIRST, NETWORK_FIRST, BOTH]
     = [(True, False, False, False),
        (False, False, False, False),
        (False, True, True, True),
        (True, False, True, True),
        (False, True, True, True)]
   \<and> p_shouldCallNetworkFirst p = (p = NO_CACHE \<or> p = NETWORK_FIRST)
   \<and> p_shouldCallBoth p = (p = CACHE_FIRST \<or> p = BOTH)
   \<and> p_shouldUpdateCache p = (p = CACHE_FIRST \<or> p = NETWORK_FIRST \<or> p = BOTH)
   \<and> p_shouldCallFallback p = (p_shouldCallBoth p \<or> p = NETWORK_FIRST)
   \<and> p_shouldCallFallback p = (p = CACHE_FIRST \<or> p = NETWORK_FIRST \<or> p = BOTH)"
proof -
  have d: "distinct [NO_CACHE, CACHE_ONLY, CACHE_FIRST, NETWORK_FIRST, BOTH]"
    by (simp add: policy_defs)
  have t: "map (\<lambda>p. (p_shouldCallNetworkFirst p, p_shouldCallBoth p,
                p_shouldCallFallback p, p_shouldUpdateCache p))
         [NO_CACHE, CACHE_ONLY, CACHE_FIRST, NETWORK_FIRST, BOTH]
     = [(True, False, False, False),
        (False, False, False, False),
        (False, True, True, True),
        (True, False, True, True),
        (False, True, True, True)]"
    by (simp add: should_defs policy_defs)
  have n: "p_shouldCallNetworkFirst p = (p = NO_CACHE \<or> p = NETWORK_FIRST)"
    by (simp add: shouldCallNetworkFirst_iff)
  have b: "p_shouldCallBoth p = (p = CACHE_FIRST \<or> p = BOTH)"
    by (simp add: shouldCallBoth_iff)
  have u: "p_shouldUpdateCache p = (p = CACHE_FIRST \<or> p = NETWORK_FIRST \<or> p = BOTH)"
    by (simp add: shouldUpdateCache_iff)
  have f: "p_shouldCallFallback p = (p_shouldCallBoth p \<or> p = NETWORK_FIRST)"
    by (auto simp: shouldCallFallback_iff shouldCallBoth_iff)
  have f': "p_shouldCallFallback p = (p = CACHE_FIRST \<or> p = NETWORK_FIRST \<or> p = BOTH)"
    by (simp add: shouldCallFallback_iff)
  from d t n b u f f' show ?thesis by blast
qed

section \<open>What one operation does\<close>

text \<open>
  The run of an operation is unfolded answer by answer.  The lemmas below give the whole
  trace of \<open>p_read\<close> and \<open>p_write\<close> for each policy and each way the two stores can
  answer, for an options object whose callbacks are the caller's own; where a response
  is written back, the responses are assumed to carry the provenance the interface of
  the stores promises.
\<close>

lemma run_Nil: "queue st = [] \<Longrightarrow> run env st = st"
  by (simp add: run.simps)

lemma run_Cons:
  "queue st = t # ts \<Longrightarrow> run env st = run env (deliver env t (st\<lparr>queue := ts\<rparr>))"
  by (subst run.simps) simp

lemmas run_simps = run_Nil run_Cons deliver_def primary_success_def primary_error_def
  call_store_def call_put_def options_complete_def emit_def issue_def set_success_def
  set_error_def Let_def

lemma callers_ownE:
  assumes "callers_own os"
  obtains s e c where "success os = AppSuccess s" and "error os = AppError e"
    and "complete os = AppComplete c"
proof -
  from assms have a: "own_success (success os)" and b: "own_error (error os)"
    and c: "complete os \<noteq> NoComplete"
    by (simp_all add: callers_own_def)
  from a obtain s where "success os = AppSuccess s" by (cases "success os") simp_all
  moreover from b obtain e where "error os = AppError e" by (cases "error os") simp_all
  moreover from c obtain c' where "complete os = AppComplete c'"
    by (cases "complete os") simp_all
  ultimately show thesis by (rule that)
qed




lemma unlisted_policy:
  assumes "p \<noteq> NO_CACHE" and "p \<noteq> NETWORK_FIRST" and "p \<noteq> CACHE_FIRST" and "p \<noteq> BOTH"
  shows "\<not> p_shouldCallNetworkFirst p" and "\<not> p_shouldCallBoth p"
    and "\<not> p_shouldCallFallback p" and "\<not> p_shouldUpdateCache p"
    and "\<not> p_shouldCallBothCallbacks p"
  using assms
  by (simp_all add: shouldCallNetworkFirst_iff shouldCallBoth_iff shouldCallFallback_iff
      shouldUpdateCache_iff p_shouldCallBothCallbacks_def)

lemma read_local_only:
  assumes "policy (objs w a) \<noteq> NO_CACHE" and "policy (objs w a) \<noteq> NETWORK_FIRST"
    and "policy (objs w a) \<noteq> CACHE_FIRST" and "policy (objs w a) \<noteq> BOTH"
    and own: "callers_own (objs w a)"
  shows "trace (p_read this env operation arg a w) =
           [Called Db (collection this) operation arg,
            Replied Db (db_call env (db w) (collection this) operation arg),
            notification (db_call env (db w) (collection this) operation arg), Complete]"
    and "db (p_read this env operation arg a w) = db w"
proof -
  from own obtain s e c where "success (objs w a) = AppSuccess s"
    "error (objs w a) = AppError e" "complete (objs w a) = AppComplete c"
    by (rule callers_ownE)
  with unlisted_policy [OF assms(1-4)]
  show "trace (p_read this env operation arg a w) =
           [Called Db (collection this) operation arg,
            Replied Db (db_call env (db w) (collection this) operation arg),
            notification (db_call env (db w) (collection this) operation arg), Complete]"
    and "db (p_read this env operation arg a w) = db w"
    by (simp_all add: p_read_def run_simps split: outcome.splits)
qed











subsection \<open>Counting the notifications\<close>

lemma counts_simps [simp]:
  "successes [] = 0" "errors [] = 0" "completes [] = 0" "notifications [] = []"
  "successes (e # tr) = (if is_success e then 1 else 0) + successes tr"
  "errors (e # tr) = (if is_error e then 1 else 0) + errors tr"
  "completes (e # tr) = (if is_complete e then 1 else 0) + completes tr"
  "notifications (e # tr) =
     (if is_success e \<or> is_error e then e # notifications tr else notifications tr)"
  by (simp_all add: successes_def errors_def completes_def notifications_def)

lemma counts_append [simp]:
  "successes (xs @ ys) = successes xs + successes ys"
  "errors (xs @ ys) = errors xs + errors ys"
  "completes (xs @ ys) = completes xs + completes ys"
  "notifications (xs @ ys) = notifications xs @ notifications ys"
  by (simp_all add: successes_def errors_def completes_def notifications_def)



lemma p_options_frame:
  "db (snd (snd (p_options this given w))) = db w"
  "proto (snd (snd (p_options this given w))) = proto w"
  "collection (fst (snd (p_options this given w))) = collection this"
  by (simp_all add: p_options_def new_object_def Let_def split: option.splits)

lemma p_options_own:
  assumes "callers_own (proto w)" and "untouched given w"
  shows "callers_own (objs (snd (snd (p_options this given w))) (fst (p_options this given w)))"
proof -
  from assms(1) obtain s e c where p: "success (proto w) = AppSuccess s"
    "error (proto w) = AppError e" "complete (proto w) = AppComplete c"
    by (rule callers_ownE)
  show ?thesis
  proof (cases given)
    case None
    with p show ?thesis
      by (simp add: p_options_def new_object_def Let_def callers_own_def empty_options_def)
  next
    case (Some a)
    with assms(2) have "plain (objs w a)" by (simp add: untouched_def)
    with p Some show ?thesis
      by (auto simp: p_options_def Let_def callers_own_def plain_def)
  qed
qed

lemma effective_policy_eq:
  "effective_policy this given w =
     policy (objs (snd (snd (p_options this given w))) (fst (p_options this given w)))"
  by (simp add: effective_policy_def split: prod.splits)

section \<open>Single runs\<close>

lemma fixed_backends_simps [simp]:
  "db_call (fixed_backends l n) d coll operation arg = l"
  "store_call (fixed_backends l n) coll operation arg = n"
  "db_put (fixed_backends l n) d coll operation key v = (True, (coll, operation, key, v) # d)"
  by (simp_all add: fixed_backends_def)

lemma started_simps [simp]:
  "proto started = class_options\<lparr>policy := NETWORK_FIRST\<rparr>"
  "db started = []" "next_obj started = 0"
  by (simp_all add: started_def loaded_def constructor_def class_loaded_def Let_def)

lemma with_literal_simps [simp]:
  "objs (with_literal p) 0 = literal p"
  "db (with_literal p) = []"
  "proto (with_literal p) = class_options\<lparr>policy := NETWORK_FIRST\<rparr>"
  by (simp_all add: with_literal_def new_object_def)

lemma literal_simps [simp]:
  "policy (literal p) = p" "callers_own (literal p)" "plain (literal p)"
  by (simp_all add: literal_def callers_own_def plain_def)

lemma collection_simps [simp]: "collection books = ''books''" "collection users = ''user''"
  by (simp_all add: books_def users_def)









section \<open>The callback discipline\<close>

lemma read_unfold:
  "fst (aggregate this env arg given w) =
     p_read (fst (snd (p_options this given w))) env ''aggregate'' arg
       (fst (p_options this given w)) (snd (snd (p_options this given w)))"
  "fst (query this env arg given w) =
     p_read (fst (snd (p_options this given w))) env ''query'' arg
       (fst (p_options this given w)) (snd (snd (p_options this given w)))"
  "fst (queryWithQuery this env arg given w) =
     p_read (fst (snd (p_options this given w))) env ''queryWithQuery'' arg
       (fst (p_options this given w)) (snd (snd (p_options this given w)))"
  by (simp_all add: aggregate_def query_def queryWithQuery_def split: prod.splits)

lemma write_unfold:
  "fst (remove this env arg given w) =
     p_write (fst (snd (p_options this given w))) env ''remove'' arg
       (fst (p_options this given w)) (snd (snd (p_options this given w)))"
  "fst (removeWithQuery this env arg given w) =
     p_write (fst (snd (p_options this given w))) env ''removeWithQuery'' arg
       (fst (p_options this given w)) (snd (snd (p_options this given w)))"
  "fst (save this env arg given w) =
     p_write (fst (snd (p_options this given w))) env ''save'' arg
       (fst (p_options this given w)) (snd (snd (p_options this given w)))"
  by (simp_all add: remove_def removeWithQuery_def save_def split: prod.splits)






section \<open>An options object used twice\<close>

text \<open>
  \<^verbatim>\<open>_read\<close> and \<^verbatim>\<open>_write\<close> write their handlers into the caller's options object and
  leave them there.  When the object is passed to a second operation, that operation
  takes the handler of the first for the caller's callback and wraps it once more.
\<close>

lemma p_options_full:
  assumes "truthy (policy (objs w a))" and "success (objs w a) \<noteq> NoSuccess"
    and "error (objs w a) \<noteq> NoError" and "complete (objs w a) \<noteq> NoComplete"
  shows "fst (p_options this (Some a) w) = a"
    and "snd (snd (p_options this (Some a) w)) = w"
    and "collection (fst (snd (p_options this (Some a) w))) = collection this"
  using assms by (simp_all add: p_options_def Let_def)

lemma read_local_only_state:
  assumes "policy (objs w a) \<noteq> NO_CACHE" and "policy (objs w a) \<noteq> NETWORK_FIRST"
    and "policy (objs w a) \<noteq> CACHE_FIRST" and "policy (objs w a) \<noteq> BOTH"
    and own: "callers_own (objs w a)"
    and ok: "db_call env (db w) (collection this) operation arg = Succeeds r i"
  shows "objs (p_read this env operation arg a w) =
           (objs w)(a := (objs w a)
              \<lparr>success := ReadSuccess this operation arg a (next_cell w) (success (objs w a))\<rparr>)"
    and "cells (p_read this env operation arg a w) = (cells w)(next_cell w := True)"
    and "next_cell (p_read this env operation arg a w) = Suc (next_cell w)"
proof -
  from own obtain s e c where "success (objs w a) = AppSuccess s"
    "error (objs w a) = AppError e" "complete (objs w a) = AppComplete c"
    by (rule callers_ownE)
  with unlisted_policy [OF assms(1-4)] ok
  show "objs (p_read this env operation arg a w) =
           (objs w)(a := (objs w a)
              \<lparr>success := ReadSuccess this operation arg a (next_cell w) (success (objs w a))\<rparr>)"
    and "cells (p_read this env operation arg a w) = (cells w)(next_cell w := True)"
    and "next_cell (p_read this env operation arg a w) = Suc (next_cell w)"
    by (simp_all add: p_read_def run_simps)
qed

lemma read_local_only_again:
  assumes "policy (objs w a) \<noteq> NO_CACHE" and "policy (objs w a) \<noteq> NETWORK_FIRST"
    and "policy (objs w a) \<noteq> CACHE_FIRST" and "policy (objs w a) \<noteq> BOTH"
    and "success (objs w a) = ReadSuccess this0 operation0 arg0 a c (AppSuccess s)"
    and "cells w c" and "c \<noteq> next_cell w"
    and "complete (objs w a) = AppComplete cb"
    and "db_call env (db w) (collection this) operation arg = Succeeds r i"
  shows "trace (p_read this env operation arg a w) =
           [Called Db (collection this) operation arg, Replied Db (Succeeds r i),
            Complete, Complete]"
  using unlisted_policy [OF assms(1-4)] assms(5-)
  by (simp add: p_read_def run_simps)

lemma write_state:
  assumes own: "callers_own (objs w a)"
    and "store_call env (collection this) operation arg = Succeeds r i"
    and "p_shouldUpdateCache (policy (objs w a))"
    and "map_of (cacheHandle this arg r) operation = Some (op, key, v)"
  shows "objs (p_write this env operation arg a w) =
           (objs w)(a := (objs w a)
              \<lparr>success := WriteSuccess this operation arg a (success (objs w a)),
               error := ThenComplete (error (objs w a)) a\<rparr>)"
    and "db (p_write this env operation arg a w)
           = snd (db_put env (db w) (collection this) op key v)"
proof -
  from own obtain s e c where "success (objs w a) = AppSuccess s"
    "error (objs w a) = AppError e" "complete (objs w a) = AppComplete c"
    by (rule callers_ownE)
  with assms(2-)
  show "objs (p_write this env operation arg a w) =
           (objs w)(a := (objs w a)
              \<lparr>success := WriteSuccess this operation arg a (success (objs w a)),
               error := ThenComplete (error (objs w a)) a\<rparr>)"
    and "db (p_write this env operation arg a w)
           = snd (db_put env (db w) (collection this) op key v)"
    by (simp_all add: p_write_def run_simps split: prod.splits)
qed

lemma write_again_none:
  assumes "success (objs w a) = WriteSuccess this0 operation0 arg0 a (AppSuccess s)"
    and "complete (objs w a) = AppComplete cb"
    and "p_shouldUpdateCache (policy (objs w a))"
    and "store_call env (collection this) operation arg = Succeeds r i"
    and "map_of (cacheHandle this0 arg0 r) operation0 = Some (op, key, v)"
    and "map_of (cacheHandle this arg r) operation = None"
  shows "trace (p_write this env operation arg a w) =
           [Called Store (collection this) operation arg, Replied Store (Succeeds r i),
            Success r i, PutCalled (collection this0) op key v, Complete,
            PutSettled (fst (db_put env (db w) (collection this0) op key v)), Complete]"
  using assms
  by (simp add: p_write_def run_simps split: prod.splits)

lemma write_again_some:
  assumes "success (objs w a) = WriteSuccess this0 operation0 arg0 a (AppSuccess s)"
    and "complete (objs w a) = AppComplete cb"
    and "p_shouldUpdateCache (policy (objs w a))"
    and "store_call env (collection this) operation arg = Succeeds r i"
    and "map_of (cacheHandle this0 arg0 r) operation0 = Some (op, key, v)"
    and "map_of (cacheHandle this arg r) operation = Some (op', key', v')"
  shows "puts (trace (p_write this env operation arg a w)) =
           [(collection this0, op, key, v), (collection this, op', key', v')]
         \<and> completes (trace (p_write this env operation arg a w)) = 2"
  using assms
  by (simp add: p_write_def run_simps split: prod.splits)

lemma with_literal_cells [simp]:
  "next_cell (with_literal p) = 0"
  by (simp add: with_literal_def new_object_def started_def loaded_def constructor_def
      class_loaded_def Let_def)

lemma literal_fields [simp]:
  "success (literal p) = AppSuccess (Fn 1)" "error (literal p) = AppError (Fn 2)"
  "complete (literal p) = AppComplete (Fn 3)"
  by (simp_all add: literal_def)

lemma cacheonly_unlisted:
  "CACHE_ONLY \<noteq> NO_CACHE" "CACHE_ONLY \<noteq> NETWORK_FIRST" "CACHE_ONLY \<noteq> CACHE_FIRST"
  "CACHE_ONLY \<noteq> BOTH" "truthy CACHE_ONLY"
  by (simp_all add: policy_defs)

text \<open>
  C6.  The claim: under \<open>CACHE_ONLY\<close> a read never calls the network store and is
  answered from the database alone, and the same read issued twice behaves the same
  both times.  Evaluated here: the same \<^verbatim>\<open>query\<close> issued twice with the same options
  object.  Neither read calls the network store, but the second one does not behave as
  the first: the success callback of the application is not invoked at all, and the
  completion callback is invoked twice.
\<close>

theorem cacheonly_same_options_twice:
  "trace (fst (query books (fixed_backends cached_copy fresh_copy) (Str ''b1'') (Some 0)
                 (with_literal CACHE_ONLY))) =
     [Called Db ''books'' ''query'' (Str ''b1''), Replied Db cached_copy,
      Success (Obj [(''_id'', Str ''b1''), (''title'', Str ''old'')]) \<lparr>network = False\<rparr>,
      Complete]
   \<and> trace (fst (query books (fixed_backends cached_copy fresh_copy) (Str ''b1'') (Some 0)
                 (fst (query books (fixed_backends cached_copy fresh_copy) (Str ''b1'') (Some 0)
                        (with_literal CACHE_ONLY))))) =
     [Called Db ''books'' ''query'' (Str ''b1''), Replied Db cached_copy, Complete, Complete]"
proof -
  define e where "e = fixed_backends cached_copy fresh_copy"
  define w where "w = with_literal CACHE_ONLY"
  define b1 where "b1 = fst (snd (p_options books (Some 0) w))"
  define first where "first = p_read b1 e ''query'' (Str ''b1'') 0 w"
  define b2 where "b2 = fst (snd (p_options books (Some 0) first))"
  have lo: "\<And>d c. db_call e d c ''query'' (Str ''b1'') =
              Succeeds (Obj [(''_id'', Str ''b1''), (''title'', Str ''old'')]) \<lparr>network = False\<rparr>"
    by (simp add: e_def cached_copy_def)
  have pw: "policy (objs w 0) = CACHE_ONLY" and ow: "callers_own (objs w 0)"
    by (simp_all add: w_def)
  note un = cacheonly_unlisted(1-4) [folded pw]
  have o1: "fst (p_options books (Some 0) w) = 0" "snd (snd (p_options books (Some 0) w)) = w"
    by (rule p_options_full, simp_all add: w_def cacheonly_unlisted)+
  have c1: "collection b1 = ''books''"
    by (simp add: b1_def p_options_frame)
  have q1: "fst (query books e (Str ''b1'') (Some 0) w) = first"
    by (simp add: read_unfold o1 first_def b1_def)
  have t1: "trace first =
     [Called Db ''books'' ''query'' (Str ''b1''), Replied Db cached_copy,
      Success (Obj [(''_id'', Str ''b1''), (''title'', Str ''old'')]) \<lparr>network = False\<rparr>,
      Complete]"
    unfolding first_def
    using read_local_only(1) [OF un ow, of b1 e "''query''" "Str ''b1''"]
    by (simp add: c1 lo) (simp add: cached_copy_def)
  have s1: "objs first 0 =
              (literal CACHE_ONLY)\<lparr>success :=
                 ReadSuccess b1 ''query'' (Str ''b1'') 0 0 (AppSuccess (Fn 1))\<rparr>"
    "cells first 0" "next_cell first = 1"
    unfolding first_def
    using read_local_only_state [OF un ow lo, of b1]
    by (simp_all add: w_def)
  have o2: "fst (p_options books (Some 0) first) = 0"
    "snd (snd (p_options books (Some 0) first)) = first"
    by (rule p_options_full, simp_all add: s1 cacheonly_unlisted)+
  have c2: "collection b2 = ''books''"
    by (simp add: b2_def p_options_frame)
  have q2: "fst (query books e (Str ''b1'') (Some 0) first) =
              p_read b2 e ''query'' (Str ''b1'') 0 first"
    by (simp add: read_unfold o2 b2_def)
  have pf: "policy (objs first 0) = CACHE_ONLY"
    by (simp add: s1)
  note un2 = cacheonly_unlisted(1-4) [folded pf]
  have t2: "trace (p_read b2 e ''query'' (Str ''b1'') 0 first) =
     [Called Db ''books'' ''query'' (Str ''b1''), Replied Db cached_copy, Complete, Complete]"
    using read_local_only_again
            [OF un2, of b1 "''query''" "Str ''b1''" 0 "Fn 1" "Fn 3" e b2 "''query''"
               "Str ''b1''"] lo
    by (simp add: s1 c2) (simp add: cached_copy_def)
  from q1 t1 q2 t2 show ?thesis
    by (simp add: e_def w_def)
qed

lemma cachefirst_facts:
  "truthy CACHE_FIRST" "p_shouldUpdateCache CACHE_FIRST"
  by (simp_all add: policy_defs shouldUpdateCache_iff)

text \<open>
  C4.  The claim: a \<^verbatim>\<open>save\<close> on the collection \<open>user\<close> never leads to a write into the
  database, and a \<^verbatim>\<open>save\<close> on another collection, under a policy that updates the cache
  and with a response that is not null, to exactly one.  Evaluated here: an options
  object passed to a \<^verbatim>\<open>save\<close> on the store of \<open>books\<close> and then to a \<^verbatim>\<open>save\<close> on the store
  of \<open>user\<close>, and an options object passed to two \<^verbatim>\<open>save\<close>s on the store of \<open>books\<close>.  The
  \<^verbatim>\<open>save\<close> on \<open>user\<close> puts the user document, password included, into the database of
  \<open>books\<close>, through the handler the first \<^verbatim>\<open>save\<close> left in the object; the second \<^verbatim>\<open>save\<close>
  on \<open>books\<close> calls \<^verbatim>\<open>db.put\<close> twice.
\<close>

theorem save_same_options_twice:
  "trace (fst (save users shop_backends (Obj [(''password'', Str ''secret'')]) (Some 0)
                  (fst (save books shop_backends (Obj [(''title'', Str ''new'')]) (Some 0)
                         (with_literal CACHE_FIRST))))) =
     [Called Store ''user'' ''save'' (Obj [(''password'', Str ''secret'')]),
      Replied Store user_record,
      Success (Obj [(''_id'', Str ''u1''), (''password'', Str ''secret'')]) \<lparr>network = True\<rparr>,
      PutCalled ''books'' ''query'' (Str ''u1'')
        (Obj [(''_id'', Str ''u1''), (''password'', Str ''secret'')]),
      Complete, PutSettled True, Complete]
   \<and> puts (trace (fst (save books shop_backends (Obj [(''title'', Str ''new'')]) (Some 0)
                  (fst (save books shop_backends (Obj [(''title'', Str ''new'')]) (Some 0)
                         (with_literal CACHE_FIRST)))))) =
     [(''books'', ''query'', Str ''b1'', Obj [(''_id'', Str ''b1''), (''title'', Str ''new'')]),
      (''books'', ''query'', Str ''b1'', Obj [(''_id'', Str ''b1''), (''title'', Str ''new'')])]"
proof -
  define e where "e = shop_backends"
  define w where "w = with_literal CACHE_FIRST"
  define doc where "doc = Obj [(''title'', Str ''new'')]"
  define udoc where "udoc = Obj [(''password'', Str ''secret'')]"
  define r1 where "r1 = Obj [(''_id'', Str ''b1''), (''title'', Str ''new'')]"
  define r2 where "r2 = Obj [(''_id'', Str ''u1''), (''password'', Str ''secret'')]"
  define b1 where "b1 = fst (snd (p_options books (Some 0) w))"
  define first where "first = p_write b1 e ''save'' doc 0 w"
  define b2 where "b2 = fst (snd (p_options books (Some 0) first))"
  define u2 where "u2 = fst (snd (p_options users (Some 0) first))"
  have c: "collection b1 = ''books''" "collection b2 = ''books''" "collection u2 = ''user''"
    by (simp_all add: b1_def b2_def u2_def p_options_frame)
  have nb: "\<And>op arg. store_call e ''books'' op arg = Succeeds r1 \<lparr>network = True\<rparr>"
    and nu: "\<And>op arg. store_call e ''user'' op arg = Succeeds r2 \<lparr>network = True\<rparr>"
    and pt: "\<And>d coll op key v. db_put e d coll op key v = (True, (coll, op, key, v) # d)"
    by (simp_all add: e_def shop_backends_def fresh_copy_def user_record_def r1_def r2_def)
  have h1: "map_of (cacheHandle b1 doc r1) ''save'' = Some (''query'', Str ''b1'', r1)"
    and h1u: "map_of (cacheHandle b1 doc r2) ''save'' = Some (''query'', Str ''u1'', r2)"
    and h2: "map_of (cacheHandle b2 doc r1) ''save'' = Some (''query'', Str ''b1'', r1)"
    and hu: "map_of (cacheHandle u2 udoc r2) ''save'' = None"
    by (simp_all add: cacheHandle_def c r1_def r2_def)
  have pw: "policy (objs w 0) = CACHE_FIRST" and ow: "callers_own (objs w 0)"
    by (simp_all add: w_def)
  have o1: "fst (p_options books (Some 0) w) = 0" "snd (snd (p_options books (Some 0) w)) = w"
    by (rule p_options_full, simp_all add: w_def cachefirst_facts)+
  have q1: "fst (save books e doc (Some 0) w) = first"
    by (simp add: write_unfold o1 first_def b1_def)
  have s1: "objs first 0 =
              (literal CACHE_FIRST)\<lparr>success := WriteSuccess b1 ''save'' doc 0 (AppSuccess (Fn 1)),
                                     error := ThenComplete (AppError (Fn 2)) 0\<rparr>"
    unfolding first_def
    using write_state(1) [OF ow, of e b1 "''save''" doc r1 "\<lparr>network = True\<rparr>"
                            "''query''" "Str ''b1''" r1]
    by (simp add: c nb pw cachefirst_facts h1 w_def)
  have o2: "fst (p_options books (Some 0) first) = 0"
    "snd (snd (p_options books (Some 0) first)) = first"
    "fst (p_options users (Some 0) first) = 0"
    "snd (snd (p_options users (Some 0) first)) = first"
    by (rule p_options_full, simp_all add: s1 cachefirst_facts)+
  have q2: "fst (save users e udoc (Some 0) first) = p_write u2 e ''save'' udoc 0 first"
    "fst (save books e doc (Some 0) first) = p_write b2 e ''save'' doc 0 first"
    by (simp_all add: write_unfold o2 b2_def u2_def)
  have t2: "trace (p_write u2 e ''save'' udoc 0 first) =
     [Called Store ''user'' ''save'' udoc, Replied Store (Succeeds r2 \<lparr>network = True\<rparr>),
      Success r2 \<lparr>network = True\<rparr>, PutCalled ''books'' ''query'' (Str ''u1'') r2,
      Complete, PutSettled True, Complete]"
    using write_again_none
            [of first 0 b1 "''save''" doc "Fn 1" "Fn 3" e u2 "''save''" udoc r2
                "\<lparr>network = True\<rparr>" "''query''" "Str ''u1''" r2]
    by (simp add: s1 c nu pt h1u hu cachefirst_facts)
  have t3: "puts (trace (p_write b2 e ''save'' doc 0 first)) =
     [(''books'', ''query'', Str ''b1'', r1), (''books'', ''query'', Str ''b1'', r1)]"
    using write_again_some
            [of first 0 b1 "''save''" doc "Fn 1" "Fn 3" e b2 "''save''" doc r1
                "\<lparr>network = True\<rparr>" "''query''" "Str ''b1''" r1 "''query''" "Str ''b1''" r1]
    by (simp add: s1 c nb h1 h2 cachefirst_facts)
  from q1 q2 t2 t3 show ?thesis
    by (simp add: e_def w_def doc_def udoc_def r1_def r2_def user_record_def)
qed

section \<open>A policy the resolver does not know\<close>

text \<open>
  The resolver answers every question with no for a policy that is none of
  \<open>NO_CACHE\<close>, \<open>NETWORK_FIRST\<close>, \<open>CACHE_FIRST\<close> and \<open>BOTH\<close>, and the class reads the policy
  through the resolver only.  So two such policies cannot be told apart by a run: every
  handler, and with them \<open>p_read\<close> and \<open>p_write\<close>, does the same in two states that differ
  in such a policy of one options object.
\<close>

lemma unlisted_predicates:
  assumes "unlisted p"
  shows "\<not> p_shouldCallNetworkFirst p" and "\<not> p_shouldCallBoth p"
    and "\<not> p_shouldCallFallback p" and "\<not> p_shouldUpdateCache p"
    and "\<not> p_shouldCallBothCallbacks p"
  using assms unlisted_policy [of p] by (simp_all add: unlisted_def)

lemma relabel_fields [simp]:
  "trace (with_policy_at a q st) = trace st"
  "queue (with_policy_at a q st) = queue st"
  "cells (with_policy_at a q st) = cells st"
  "next_cell (with_policy_at a q st) = next_cell st"
  "db (with_policy_at a q st) = db st"
  "proto (with_policy_at a q st) = proto st"
  "success (objs (with_policy_at a q st) b) = success (objs st b)"
  "error (objs (with_policy_at a q st) b) = error (objs st b)"
  "complete (objs (with_policy_at a q st) b) = complete (objs st b)"
  by (simp_all add: with_policy_at_def)

lemma relabel_predicates:
  assumes "unlisted (policy (objs st a))" and "unlisted q"
  shows "p_shouldCallNetworkFirst (policy (objs (with_policy_at a q st) b))
           = p_shouldCallNetworkFirst (policy (objs st b))"
    and "p_shouldCallBoth (policy (objs (with_policy_at a q st) b))
           = p_shouldCallBoth (policy (objs st b))"
    and "p_shouldCallFallback (policy (objs (with_policy_at a q st) b))
           = p_shouldCallFallback (policy (objs st b))"
    and "p_shouldUpdateCache (policy (objs (with_policy_at a q st) b))
           = p_shouldUpdateCache (policy (objs st b))"
    and "p_shouldCallBothCallbacks (policy (objs (with_policy_at a q st) b))
           = p_shouldCallBothCallbacks (policy (objs st b))"
  using unlisted_predicates [OF assms(1)] unlisted_predicates [OF assms(2)]
  by (simp_all add: with_policy_at_def)

lemma relabel_updates:
  "(with_policy_at a q st)\<lparr>trace := t\<rparr> = with_policy_at a q (st\<lparr>trace := t\<rparr>)"
  "(with_policy_at a q st)\<lparr>queue := qs\<rparr> = with_policy_at a q (st\<lparr>queue := qs\<rparr>)"
  "(with_policy_at a q st)\<lparr>cells := cs\<rparr> = with_policy_at a q (st\<lparr>cells := cs\<rparr>)"
  "(with_policy_at a q st)\<lparr>next_cell := n\<rparr> = with_policy_at a q (st\<lparr>next_cell := n\<rparr>)"
  "(with_policy_at a q st)\<lparr>db := d\<rparr> = with_policy_at a q (st\<lparr>db := d\<rparr>)"
  by (simp_all add: with_policy_at_def)

lemma relabel_set:
  "set_success b f (with_policy_at a q st) = with_policy_at a q (set_success b f st)"
  "set_error b g (with_policy_at a q st) = with_policy_at a q (set_error b g st)"
proof -
  have s: "(\<lambda>x. if x = b then (if b = a then (objs st a)\<lparr>policy := q\<rparr> else objs st b)
                              \<lparr>success := f\<rparr>
                 else if x = a then (objs st a)\<lparr>policy := q\<rparr> else objs st x)
           = (\<lambda>x. if x = a then (if a = b then (objs st b)\<lparr>success := f\<rparr> else objs st a)
                                \<lparr>policy := q\<rparr>
                   else if x = b then (objs st b)\<lparr>success := f\<rparr> else objs st x)"
    by (rule ext) simp
  have e: "(\<lambda>x. if x = b then (if b = a then (objs st a)\<lparr>policy := q\<rparr> else objs st b)
                              \<lparr>error := g\<rparr>
                 else if x = a then (objs st a)\<lparr>policy := q\<rparr> else objs st x)
           = (\<lambda>x. if x = a then (if a = b then (objs st b)\<lparr>error := g\<rparr> else objs st a)
                                \<lparr>policy := q\<rparr>
                   else if x = b then (objs st b)\<lparr>error := g\<rparr> else objs st x)"
    by (rule ext) simp
  show "set_success b f (with_policy_at a q st) = with_policy_at a q (set_success b f st)"
    using s by (simp add: with_policy_at_def set_success_def fun_upd_def)
  show "set_error b g (with_policy_at a q st) = with_policy_at a q (set_error b g st)"
    using e by (simp add: with_policy_at_def set_error_def fun_upd_def)
qed

lemma relabel_emit:
  "emit e (with_policy_at a q st) = with_policy_at a q (emit e st)"
  "issue t (with_policy_at a q st) = with_policy_at a q (issue t st)"
  by (simp_all add: emit_def issue_def relabel_updates)

lemma relabel_calls:
  "call_store s this operation arg r (with_policy_at a q st)
     = with_policy_at a q (call_store s this operation arg r st)"
  "call_put this operation key v b (with_policy_at a q st)
     = with_policy_at a q (call_put this operation key v b st)"
  "options_complete b (with_policy_at a q st) = with_policy_at a q (options_complete b st)"
  by (simp_all add: call_store_def call_put_def options_complete_def relabel_emit
      split: complete_fn.splits)

lemma objs_frame [simp]:
  "objs (emit e st) = objs st" "objs (issue t st) = objs st"
  "objs (call_put this operation key v b st) = objs st"
  "objs (call_store s this operation arg r st) = objs st"
  "objs (options_complete b st) = objs st"
  by (simp_all add: emit_def issue_def call_put_def call_store_def options_complete_def
      split: complete_fn.splits)

lemma objs_apply_success [simp]: "objs (apply_success f response info st) = objs st"
  by (induction f response info st rule: apply_success.induct)
     (simp_all add: Let_def split: option.splits prod.splits)

lemma objs_apply_error [simp]: "objs (apply_error f err info st) = objs st"
  by (induction f arbitrary: st) simp_all

lemma relabel_apply_success:
  assumes "unlisted (policy (objs st a))" and "unlisted q"
  shows "apply_success f response info (with_policy_at a q st)
           = with_policy_at a q (apply_success f response info st)"
  using assms(1)
proof (induction f response info st rule: apply_success.induct)
  case (1 response info st)
  show ?case by (simp add: relabel_emit)
next
  case (2 cb response info st)
  show ?case by (simp add: relabel_emit)
next
  case (3 this operation arg b c fnSuccess response info st)
  have u: "unlisted (policy (objs (st\<lparr>cells := (cells st)(c := True)\<rparr>) a))"
    using 3(2) by simp
  show ?case
  proof (cases "\<not> cells st c \<or> p_shouldCallBothCallbacks (policy (objs st b))")
    case True
    note ih = 3(1) [OF refl True u]
    have v: "unlisted (policy (objs (apply_success fnSuccess response info
                                       (st\<lparr>cells := (cells st)(c := True)\<rparr>)) a))"
      using 3(2) by simp
    from True have t: "\<not> cells st c \<or>
        p_shouldCallBothCallbacks (policy (objs (with_policy_at a q st) b))"
      using 3(2) assms(2) by (simp add: relabel_predicates)
    have "apply_success (ReadSuccess this operation arg b c fnSuccess) response info
            (with_policy_at a q st) =
          (let st1 = with_policy_at a q (apply_success fnSuccess response info
                                           (st\<lparr>cells := (cells st)(c := True)\<rparr>))
           in if network info \<and> p_shouldUpdateCache (policy (objs st1 b))
              then call_put this operation arg response b st1
              else if cells st c \<or> \<not> p_shouldCallBoth (policy (objs st1 b))
              then options_complete b st1
              else st1)"
      using t by (simp add: Let_def relabel_updates ih)
    also have "\<dots> = with_policy_at a q
        (apply_success (ReadSuccess this operation arg b c fnSuccess) response info st)"
      using True v assms(2)
      by (simp add: Let_def relabel_calls relabel_predicates)
    finally show ?thesis .
  next
    case False
    then have f: "\<not> (\<not> cells st c \<or>
        p_shouldCallBothCallbacks (policy (objs (with_policy_at a q st) b)))"
      using 3(2) assms(2) by (simp add: relabel_predicates)
    have "apply_success (ReadSuccess this operation arg b c fnSuccess) response info
            (with_policy_at a q st) =
          (let st1 = with_policy_at a q st
           in if network info \<and> p_shouldUpdateCache (policy (objs st1 b))
              then call_put this operation arg response b st1
              else if cells st c \<or> \<not> p_shouldCallBoth (policy (objs st1 b))
              then options_complete b st1
              else st1)"
      using f by (simp add: Let_def)
    also have "\<dots> = with_policy_at a q
        (apply_success (ReadSuccess this operation arg b c fnSuccess) response info st)"
      using False 3(2) assms(2)
      by (simp add: Let_def relabel_calls relabel_predicates)
    finally show ?thesis .
  qed
next
  case (4 this operation arg b fnSuccess response info st)
  note ih = 4(1) [OF 4(2)]
  have v: "unlisted (policy (objs (apply_success fnSuccess response info st) a))"
    using 4(2) by simp
  have "apply_success (WriteSuccess this operation arg b fnSuccess) response info
          (with_policy_at a q st) =
        (let st1 = with_policy_at a q (apply_success fnSuccess response info st)
         in if p_shouldUpdateCache (policy (objs st1 b))
            then (case map_of (cacheHandle this arg response) operation of
                    Some (op, key, v) \<Rightarrow> call_put this op key v b st1
                  | None \<Rightarrow> options_complete b st1)
            else options_complete b st1)"
    by (simp add: Let_def ih)
  also have "\<dots> = with_policy_at a q
      (apply_success (WriteSuccess this operation arg b fnSuccess) response info st)"
    using v assms(2)
    by (simp add: Let_def relabel_calls relabel_predicates split: option.splits)
  finally show ?case .
qed

lemma relabel_apply_error:
  "apply_error f err info (with_policy_at a q st)
     = with_policy_at a q (apply_error f err info st)"
  by (induction f arbitrary: st) (simp_all add: relabel_emit relabel_calls)

lemma policy_set [simp]:
  "policy (objs (set_success b f st) c) = policy (objs st c)"
  "policy (objs (set_error b g st) c) = policy (objs st c)"
  by (simp_all add: set_success_def set_error_def)

lemma relabel_primary:
  assumes "unlisted (policy (objs st a))" and "unlisted q"
  shows "primary_success this operation arg b s' response info (with_policy_at a q st)
           = with_policy_at a q (primary_success this operation arg b s' response info st)"
    and "primary_error this operation arg b s' err info (with_policy_at a q st)
           = with_policy_at a q (primary_error this operation arg b s' err info st)"
  using assms
  by (simp_all add: primary_success_def primary_error_def Let_def relabel_apply_success
      relabel_apply_error relabel_calls relabel_set relabel_predicates)

lemma policy_deliver [simp]: "policy (objs (deliver env t st) c) = policy (objs st c)"
  by (simp add: deliver_def primary_success_def primary_error_def Let_def
      split: task.splits outcome.splits reply_to.splits prod.splits store_id.splits)

lemma relabel_deliver:
  assumes "unlisted (policy (objs st a))" and "unlisted q"
  shows "deliver env t (with_policy_at a q st) = with_policy_at a q (deliver env t st)"
  using assms
  by (simp add: deliver_def Let_def relabel_emit relabel_calls relabel_updates
      relabel_primary relabel_apply_success relabel_apply_error
      split: task.splits outcome.splits reply_to.splits prod.splits store_id.splits)

lemma relabel_run:
  assumes "unlisted q"
  shows "unlisted (policy (objs st a)) \<Longrightarrow>
         run env (with_policy_at a q st) = with_policy_at a q (run env st)"
proof (induction env st rule: run.induct)
  case (1 env st)
  show ?case
  proof (cases "queue st")
    case Nil
    then show ?thesis by (simp add: run_Nil)
  next
    case (Cons t ts)
    have u: "unlisted (policy (objs (deliver env t (st\<lparr>queue := ts\<rparr>)) a))"
      using 1(2) by simp
    have "run env (with_policy_at a q st)
            = run env (deliver env t (with_policy_at a q (st\<lparr>queue := ts\<rparr>)))"
      using Cons by (simp add: run_Cons relabel_updates)
    also have "\<dots> = run env (with_policy_at a q (deliver env t (st\<lparr>queue := ts\<rparr>)))"
      using 1(2) assms by (simp add: relabel_deliver)
    also have "\<dots> = with_policy_at a q (run env (deliver env t (st\<lparr>queue := ts\<rparr>)))"
      using 1(1) [OF Cons u] .
    also have "\<dots> = with_policy_at a q (run env st)"
      using Cons by (simp add: run_Cons)
    finally show ?thesis .
  qed
qed

lemma relabel_read:
  assumes "unlisted (policy (objs w a))" and "unlisted q"
  shows "p_read this env operation arg b (with_policy_at a q w)
           = with_policy_at a q (p_read this env operation arg b w)"
proof -
  let ?st = "set_success b (ReadSuccess this operation arg b (next_cell w) (success (objs w b)))
               (w\<lparr>cells := (cells w)(next_cell w := False), next_cell := Suc (next_cell w),
                  trace := [], queue := []\<rparr>)"
  let ?s1 = "if p_shouldCallNetworkFirst (policy (objs w b)) then Store else Db"
  let ?s2 = "if p_shouldCallNetworkFirst (policy (objs w b)) then Db else Store"
  have u: "unlisted (policy (objs (call_store ?s1 this operation arg (Wrapped b ?s2) ?st) a))"
    using assms(1) by simp
  have "p_read this env operation arg b (with_policy_at a q w)
          = run env (with_policy_at a q (call_store ?s1 this operation arg (Wrapped b ?s2) ?st))"
    using assms
    by (simp add: p_read_def Let_def relabel_predicates relabel_updates relabel_set
        relabel_calls)
  also have "\<dots> = with_policy_at a q (run env (call_store ?s1 this operation arg (Wrapped b ?s2) ?st))"
    using relabel_run [OF assms(2) u] .
  finally show ?thesis by (simp add: p_read_def Let_def)
qed

lemma relabel_write:
  assumes "unlisted (policy (objs w a))" and "unlisted q"
  shows "p_write this env operation arg b (with_policy_at a q w)
           = with_policy_at a q (p_write this env operation arg b w)"
proof -
  let ?st = "set_error b (ThenComplete (error (objs w b)) b)
               (set_success b (WriteSuccess this operation arg b (success (objs w b)))
                  (w\<lparr>trace := [], queue := []\<rparr>))"
  have u: "unlisted (policy (objs (call_store Store this operation arg (Options b) ?st) a))"
    using assms(1) by simp
  have "p_write this env operation arg b (with_policy_at a q w)
          = run env (with_policy_at a q (call_store Store this operation arg (Options b) ?st))"
    by (simp add: p_write_def Let_def relabel_updates relabel_set relabel_calls)
  also have "\<dots> = with_policy_at a q (run env (call_store Store this operation arg (Options b) ?st))"
    using relabel_run [OF assms(2) u] .
  finally show ?thesis by (simp add: p_write_def Let_def)
qed

lemma relabel_options:
  assumes "truthy (policy (objs w a))" and "truthy q"
  shows "p_options this (Some a) (with_policy_at a q w) =
           (fst (p_options this (Some a) w), fst (snd (p_options this (Some a) w)),
            with_policy_at a q (snd (snd (p_options this (Some a) w))))"
proof -
  have 1: "fst (p_options this (Some a) (with_policy_at a q w)) = a"
    "fst (p_options this (Some a) w) = a"
    by (simp_all add: p_options_def Let_def)
  have 2: "fst (snd (p_options this (Some a) (with_policy_at a q w)))
             = fst (snd (p_options this (Some a) w))"
    using assms by (simp add: p_options_def Let_def with_policy_at_def)
  have 3: "snd (snd (p_options this (Some a) (with_policy_at a q w)))
             = with_policy_at a q (snd (snd (p_options this (Some a) w)))"
  proof (rule state.equality)
    show "objs (snd (snd (p_options this (Some a) (with_policy_at a q w))))
            = objs (with_policy_at a q (snd (snd (p_options this (Some a) w))))"
    proof (rule ext)
      fix x
      show "objs (snd (snd (p_options this (Some a) (with_policy_at a q w)))) x
              = objs (with_policy_at a q (snd (snd (p_options this (Some a) w)))) x"
        using assms
        by (intro options.equality) (simp_all add: p_options_def Let_def with_policy_at_def)
    qed
  qed (simp_all add: p_options_def Let_def with_policy_at_def)
  show ?thesis
    using 1 2 3 by (metis prod.collapse)
qed

lemma p_options_Some_fst [simp]: "fst (p_options this (Some a) w) = a"
  by (simp add: p_options_def Let_def)

lemma policy_p_options_truthy:
  "truthy (policy (objs w a)) \<Longrightarrow>
   policy (objs (snd (snd (p_options this (Some a) w))) a) = policy (objs w a)"
  by (simp add: p_options_def Let_def)

lemma policy_p_options_other:
  "b \<noteq> a \<Longrightarrow> objs (snd (snd (p_options this (Some a) w))) b = objs w b"
  by (simp add: p_options_def Let_def)

lemma relabel_perform:
  assumes "truthy (policy (objs w a))" and "unlisted (policy (objs w a))"
    and "truthy q" and "unlisted q"
  shows "map_option (\<lambda>r. trace (fst r)) (perform name this env arg (Some a) (with_policy_at a q w))
       = map_option (\<lambda>r. trace (fst r)) (perform name this env arg (Some a) w)"
proof -
  let ?inst = "fst (snd (p_options this (Some a) w))"
    and ?w = "snd (snd (p_options this (Some a) w))"
  have u: "unlisted (policy (objs ?w a))"
    using assms(1,2) by (simp add: policy_p_options_truthy)
  note o = relabel_options [OF assms(1,3), of this]
  have o2: "fst (snd (p_options this (Some a) (with_policy_at a q w))) = ?inst"
    by (simp add: o)
  have o3: "snd (snd (p_options this (Some a) (with_policy_at a q w))) = with_policy_at a q ?w"
    by (simp add: o)
  have r: "\<And>operation. trace (p_read ?inst env operation arg a (with_policy_at a q ?w))
             = trace (p_read ?inst env operation arg a ?w)"
    using relabel_read [OF u assms(4)] by simp
  have wr: "\<And>operation. trace (p_write ?inst env operation arg a (with_policy_at a q ?w))
             = trace (p_write ?inst env operation arg a ?w)"
    using relabel_write [OF u assms(4)] by simp
  show ?thesis
    by (simp add: perform_def read_unfold write_unfold o2 o3 r wr)
qed

lemma unknown_policy_facts:
  "Str ''cachfirst'' \<notin> set [NO_CACHE, CACHE_ONLY, CACHE_FIRST, NETWORK_FIRST, BOTH]"
  "truthy (Str ''cachfirst'')" "\<not> truthy (Str '''')"
  by (simp_all add: policy_defs)

text \<open>
  C8, as the code has it.  \<^verbatim>\<open>_options\<close> does not validate the policy.  A policy given with
  the call is kept as it is whenever it is truthy, whether or not it is one of the five
  policies; only a missing or falsy one is replaced by the policy of \<^verbatim>\<open>this.options\<close>.
  For a value that is none of the five, the resolver answers each of its five questions
  with no, as it does for \<open>CACHE_ONLY\<close>, and each of the six operations does with it
  exactly what it does with \<open>CACHE_ONLY\<close> in its place.  The statement as it was given,
  with the unknown value rejected or replaced by the default, fails for a misspelt
  policy, which is kept and silently served from the database alone.
\<close>

theorem options_merger_keeps_policy:
  assumes "p \<notin> set [NO_CACHE, CACHE_ONLY, CACHE_FIRST, NETWORK_FIRST, BOTH]"
  shows "(truthy p \<and> policy (objs w a) = p \<longrightarrow>
            effective_policy this (Some a) w = p
          \<and> map_option (\<lambda>r. trace (fst r)) (perform name this env arg (Some a) w)
            = map_option (\<lambda>r. trace (fst r))
                (perform name this env arg (Some a) (with_policy_at a CACHE_ONLY w)))
       \<and> (\<not> truthy (policy (objs w a)) \<longrightarrow>
            effective_policy this (Some a) w = policy (proto w))
       \<and> effective_policy this None w = policy (proto w)
       \<and> \<not> p_shouldCallNetworkFirst p \<and> \<not> p_shouldCallBoth p
       \<and> \<not> p_shouldCallBothCallbacks p \<and> \<not> p_shouldCallFallback p
       \<and> \<not> p_shouldUpdateCache p
       \<and> \<not> p_shouldCallNetworkFirst CACHE_ONLY \<and> \<not> p_shouldCallBoth CACHE_ONLY
       \<and> \<not> p_shouldCallBothCallbacks CACHE_ONLY \<and> \<not> p_shouldCallFallback CACHE_ONLY
       \<and> \<not> p_shouldUpdateCache CACHE_ONLY"
proof -
  from assms have up: "unlisted p" by (simp add: unlisted_def)
  have uc: "unlisted CACHE_ONLY" "truthy CACHE_ONLY"
    by (simp_all add: unlisted_def policy_defs)
  have a1: "truthy p \<and> policy (objs w a) = p \<longrightarrow>
            effective_policy this (Some a) w = p
          \<and> map_option (\<lambda>r. trace (fst r)) (perform name this env arg (Some a) w)
            = map_option (\<lambda>r. trace (fst r))
                (perform name this env arg (Some a) (with_policy_at a CACHE_ONLY w))"
  proof
    assume h: "truthy p \<and> policy (objs w a) = p"
    then have t: "truthy (policy (objs w a))" and u: "unlisted (policy (objs w a))"
      using up by simp_all
    have "effective_policy this (Some a) w = p"
      using h t by (simp add: effective_policy_eq policy_p_options_truthy)
    with relabel_perform [OF t u uc(2,1), of name this env arg]
    show "effective_policy this (Some a) w = p
          \<and> map_option (\<lambda>r. trace (fst r)) (perform name this env arg (Some a) w)
            = map_option (\<lambda>r. trace (fst r))
                (perform name this env arg (Some a) (with_policy_at a CACHE_ONLY w))"
      by simp
  qed
  have a2: "\<not> truthy (policy (objs w a)) \<longrightarrow>
            effective_policy this (Some a) w = policy (proto w)"
    by (simp add: effective_policy_def p_options_def Let_def)
  have a3: "effective_policy this None w = policy (proto w)"
    by (simp add: effective_policy_def p_options_def new_object_def Let_def empty_options_def)
  from a1 a2 a3 unlisted_predicates [OF up] unlisted_predicates [OF uc(1)]
  show ?thesis by blast
qed

theorem options_merger_keeps_policy_witness:
  "Str ''cachfirst'' \<notin> set [NO_CACHE, CACHE_ONLY, CACHE_FIRST, NETWORK_FIRST, BOTH]
   \<and> truthy (Str ''cachfirst'')
   \<and> policy (objs (with_literal (Str ''cachfirst'')) 0) = Str ''cachfirst''
   \<and> effective_policy books (Some 0) (with_literal (Str ''cachfirst'')) = Str ''cachfirst''
   \<and> map_option (\<lambda>r. trace (fst r))
        (perform ''query'' books (fixed_backends cached_copy fresh_copy) (Str ''b1'') (Some 0)
           (with_literal (Str ''cachfirst'')))
     = map_option (\<lambda>r. trace (fst r))
        (perform ''query'' books (fixed_backends cached_copy fresh_copy) (Str ''b1'') (Some 0)
           (with_policy_at 0 CACHE_ONLY (with_literal (Str ''cachfirst''))))
   \<and> \<not> truthy (policy (objs (with_literal (Str '''')) 0))
   \<and> effective_policy books (Some 0) (with_literal (Str '''')) = NETWORK_FIRST
   \<and> \<not> p_shouldCallBothCallbacks (Str ''cachfirst'')"
  using options_merger_keeps_policy
          [OF unknown_policy_facts(1), where w = "with_literal (Str ''cachfirst'')" and a = 0
             and this = books and name = "''query''"
             and env = "fixed_backends cached_copy fresh_copy" and arg = "Str ''b1''"]
        options_merger_keeps_policy
          [OF unknown_policy_facts(1), where w = "with_literal (Str '''')" and a = 0
             and this = books]
        unknown_policy_facts
  by simp

theorem unknown_policy_counterexample:
  "Str ''cachfirst'' \<notin> set [NO_CACHE, CACHE_ONLY, CACHE_FIRST, NETWORK_FIRST, BOTH]
   \<and> policy (proto (with_literal (Str ''cachfirst''))) = NETWORK_FIRST
   \<and> effective_policy books (Some 0) (with_literal (Str ''cachfirst'')) = Str ''cachfirst''
   \<and> trace (fst (query books (fixed_backends cached_copy fresh_copy) (Str ''b1'') (Some 0)
                    (with_literal (Str ''cachfirst'')))) =
       [Called Db ''books'' ''query'' (Str ''b1''), Replied Db cached_copy,
        Success (Obj [(''_id'', Str ''b1''), (''title'', Str ''old'')]) \<lparr>network = False\<rparr>,
        Complete]"
proof -
  let ?start = "with_literal (Str ''cachfirst'')"
  let ?a = "fst (p_options books (Some 0) ?start)"
    and ?inst = "fst (snd (p_options books (Some 0) ?start))"
    and ?w = "snd (snd (p_options books (Some 0) ?start))"
  have own: "callers_own (objs ?w ?a)"
    by (rule p_options_own) (simp_all add: callers_own_def class_options_def untouched_def)
  have p: "policy (objs ?w ?a) = Str ''cachfirst''"
    by (simp add: policy_p_options_truthy)
  have e: "effective_policy books (Some 0) ?start = Str ''cachfirst''"
    by (simp add: effective_policy_eq policy_p_options_truthy)
  have u: "policy (objs ?w ?a) \<noteq> NO_CACHE" "policy (objs ?w ?a) \<noteq> NETWORK_FIRST"
    "policy (objs ?w ?a) \<noteq> CACHE_FIRST" "policy (objs ?w ?a) \<noteq> BOTH"
    unfolding p by (simp_all add: policy_defs)
  from read_local_only(1)
         [OF u own, of ?inst "fixed_backends cached_copy fresh_copy" "''query''" "Str ''b1''"]
       e unknown_policy_facts(1)
  show ?thesis
    by (simp add: read_unfold p_options_frame cached_copy_def)
qed

section \<open>Merging the options\<close>

lemma configure_frame [simp]:
  "objs (configure this os w) = objs w" "db (configure this os w) = db w"
  "next_obj (configure this os w) = next_obj w"
  by (simp_all add: configure_def Let_def)

lemma constructor_frame [simp]:
  "objs (snd (constructor coll g w)) = objs w" "db (snd (constructor coll g w)) = db w"
  "next_obj (snd (constructor coll g w)) = next_obj w"
  by (simp_all add: constructor_def Let_def split: option.splits)

lemma act_frame [simp]: "objs (act x w) = objs w" "next_obj (act x w) = next_obj w"
  by (cases x; simp)+

lemma acts_Nil [simp]: "acts [] w = w"
  by (simp add: acts_def)

lemma acts_Cons [simp]: "acts (x # xs) w = acts xs (act x w)"
  by (simp add: acts_def)

lemma acts_frame [simp]: "objs (acts xs w) = objs w" "next_obj (acts xs w) = next_obj w"
  by (induction xs arbitrary: w) simp_all














end
